theory Spec2Isabelle
  imports Main "HOL-Library.Word"
begin

section \<open>Errors\<close>

text \<open>
  Go's \<open>error\<close> values, one constructor per place of the source that creates one
  (the comment gives the message of the source). A Go \<open>error\<close> that may be \<open>nil\<close>
  is an \<open>error option\<close>; a function returning \<open>(v, err)\<close> whose value is only used
  when \<open>err == nil\<close> is an \<open>error + 'a\<close>.
\<close>

datatype error =
    NumError string             \<comment> \<open>the error of \<open>strconv.ParseUint\<close> on this input\<close>
  | OutOfRange nat              \<comment> \<open>\<open>"%d out of range: [0..65535]"\<close>\<close>
  | DurationError string        \<comment> \<open>the error of \<open>time.ParseDuration\<close> on this input\<close>
  | UnknownProtocol string      \<comment> \<open>\<open>"unknown protocol %q"\<close>\<close>
  | UnknownCertSource string    \<comment> \<open>\<open>"unknown certificate source %q"\<close>\<close>
  | NeedHostPort                \<comment> \<open>\<open>"need listening host:port"\<close>\<close>
  | CertSourceRequiresProto     \<comment> \<open>\<open>"cert source requires proto 'https' or 'tcp'"\<close>\<close>
  | HttpsRequiresCertSource     \<comment> \<open>\<open>"proto 'https' requires cert source"\<close>\<close>
  | UnsupportedAuthType string  \<comment> \<open>\<open>"unsupported auth type: %s"\<close>\<close>
  | ExternalError string        \<comment> \<open>an error returned by a collaborator (route, registry)\<close>

section \<open>Package iam\<close>

record Auth =
  auth_Type :: string
  auth_ConfigFile :: string
  auth_Enabled :: bool

text \<open>The only implementation of the interface \<open>IAM\<close> in the package.\<close>

datatype IAM = DummyIAM

text \<open>\<open>struct{}{}\<close>, the value \<open>Authenticate\<close> of the dummy returns as auth data.\<close>

datatype authData = EmptyStruct

fun Init :: "IAM \<Rightarrow> string \<Rightarrow> error option" where
  "Init DummyIAM cfgfile = None"

fun Authenticate :: "IAM \<Rightarrow> 'r \<Rightarrow> authData \<times> error option" where
  "Authenticate DummyIAM r = (EmptyStruct, None)"

fun Authorize :: "IAM \<Rightarrow> 'r \<Rightarrow> authData \<Rightarrow> error option" where
  "Authorize DummyIAM r d = None"

text \<open>
  \<open>New\<close> has the named results \<open>(iam IAM, err error)\<close>: in the default case it returns
  with \<open>iam\<close> still nil and \<open>err\<close> set; otherwise \<open>err\<close> is what \<open>Init\<close> returns.
\<close>

definition New :: "Auth \<Rightarrow> IAM option \<times> error option" where
  "New conf =
     (if auth_Type conf = ''dummy'' then
        (let iam = DummyIAM in (Some iam, Init iam (auth_ConfigFile conf)))
      else (None, Some (UnsupportedAuthType (auth_Type conf))))"

section \<open>Package config: parsing 16-bit values\<close>

text \<open>Decimal rendering of a number, as \<open>%d\<close> of \<open>fmt\<close> does.\<close>

definition digit_char :: "nat \<Rightarrow> char" where
  "digit_char d = ''0123456789'' ! d"

fun show_nat :: "nat \<Rightarrow> string" where
  "show_nat n = (if n < 10 then [digit_char n] else show_nat (n div 10) @ [digit_char (n mod 10)])"

declare show_nat.simps [simp del]

fun error_message :: "error \<Rightarrow> string option" where
  "error_message (OutOfRange n) = Some (show_nat n @ '' out of range: [0..65535]'')"
| "error_message NeedHostPort = Some ''need listening host:port''"
| "error_message HttpsRequiresCertSource = Some (''proto '' @ [CHR 0x27] @ ''https'' @ [CHR 0x27] @ '' requires cert source'')"
| "error_message CertSourceRequiresProto =
     Some (''cert source requires proto '' @ [CHR 0x27] @ ''https'' @ [CHR 0x27] @ '' or '' @ [CHR 0x27] @ ''tcp'' @ [CHR 0x27])"
| "error_message (UnsupportedAuthType t) = Some (''unsupported auth type: '' @ t)"
| "error_message _ = None"

text \<open>
  \<open>strconv.ParseUint(s, 0, 32)\<close> is a function of the Go standard library, not of this
  repository: \<open>parseUint16\<close> takes it as the parameter \<open>pu\<close>. The result is a
  \<open>uint64\<close>. \<open>ParseUint\<close> below is a model of it for running the functions on
  concrete inputs: base 0 takes the base from the prefix (\<open>0x\<close> or \<open>0X\<close>: 16, a
  leading \<open>0\<close>: 8, otherwise 10), an empty string, a missing digit after \<open>0x\<close> or a
  character that is no digit of the base is a syntax error, and a value above
  \<open>2^32 - 1\<close> is a range error. The prefixes \<open>0b\<close> and \<open>0o\<close> and the separator \<open>_\<close>
  that later versions of Go accept with base 0 are not part of the model; no
  statement below depends on them.
\<close>

definition digit_val :: "char \<Rightarrow> nat option" where
  "digit_val c =
     (let n = of_char c :: nat in
      if 48 \<le> n \<and> n \<le> 57 then Some (n - 48)
      else if 97 \<le> n \<and> n \<le> 122 then Some (n - 97 + 10)
      else if 65 \<le> n \<and> n \<le> 90 then Some (n - 65 + 10)
      else None)"

fun parse_digits :: "nat \<Rightarrow> nat \<Rightarrow> string \<Rightarrow> nat option" where
  "parse_digits base n [] = Some n"
| "parse_digits base n (c # cs) =
     (case digit_val c of
        None \<Rightarrow> None
      | Some d \<Rightarrow> if d \<ge> base then None else parse_digits base (n * base + d) cs)"

definition ParseUint :: "string \<Rightarrow> error + 64 word" where
  "ParseUint s =
     (let r =
        (case s of
           [] \<Rightarrow> None
         | c # cs \<Rightarrow>
             if c = CHR ''0'' \<and> cs \<noteq> [] \<and> (hd cs = CHR ''x'' \<or> hd cs = CHR ''X'') then
               (if tl cs = [] then None else parse_digits 16 0 (tl cs))
             else if c = CHR ''0'' then parse_digits 8 0 cs
             else parse_digits 10 0 s)
      in case r of
           None \<Rightarrow> Inl (NumError s)
         | Some n \<Rightarrow> if n > 2 ^ 32 - 1 then Inl (NumError s) else Inr (of_nat n))"

text \<open>
  \<open>parseUint16\<close>: the comparison is \<open>n > 1<<16\<close> on the \<open>uint64\<close>, the conversion
  \<open>uint16(n)\<close> keeps the low 16 bits.
\<close>

definition parseUint16 :: "(string \<Rightarrow> error + 64 word) \<Rightarrow> string \<Rightarrow> error + 16 word" where
  "parseUint16 pu s =
     (case pu s of
        Inl err \<Rightarrow> Inl err
      | Inr n \<Rightarrow>
          if n > push_bit 16 1 then Inl (OutOfRange (unat n))
          else Inr (ucast n))"

section \<open>Package config: listeners\<close>

text \<open>
  Go strings are byte sequences, as \<open>string\<close> is. Of the functions of package
  \<open>strings\<close> the ASCII behaviour is modelled: white space is tab, line feed,
  vertical tab, form feed, carriage return and space, and letters are \<open>A\<close> to \<open>Z\<close>
  (white space and letters beyond ASCII take several bytes in UTF-8 and are left as
  they are).
\<close>

definition isSpace :: "char \<Rightarrow> bool" where
  "isSpace c = (c \<in> set [CHR 0x09, CHR 0x0A, CHR 0x0B, CHR 0x0C, CHR 0x0D, CHR 0x20])"

definition TrimSpace :: "string \<Rightarrow> string" where
  "TrimSpace s = rev (dropWhile isSpace (rev (dropWhile isSpace s)))"

definition upper_letters :: string where
  "upper_letters = ''ABCDEFGHIJKLMNOPQRSTUVWXYZ''"

definition lower_letters :: string where
  "lower_letters = ''abcdefghijklmnopqrstuvwxyz''"

definition ToLower :: "string \<Rightarrow> string" where
  "ToLower s =
     map (\<lambda>c. case map_of (zip upper_letters lower_letters) c of Some d \<Rightarrow> d | None \<Rightarrow> c) s"

definition ToUpper :: "string \<Rightarrow> string" where
  "ToUpper s =
     map (\<lambda>c. case map_of (zip lower_letters upper_letters) c of Some d \<Rightarrow> d | None \<Rightarrow> c) s"

text \<open>\<open>strings.Split(s, sep)\<close> for a separator of one byte: never an empty list.\<close>

fun Split :: "string \<Rightarrow> char \<Rightarrow> string list" where
  "Split [] sep = [[]]"
| "Split (c # cs) sep =
     (if c = sep then [] # Split cs sep
      else (case Split cs sep of [] \<Rightarrow> [[c]] | p # ps \<Rightarrow> (c # p) # ps))"

record CertSource =
  cs_Name :: string
  cs_Type :: string
  cs_CertPath :: string
  cs_KeyPath :: string
  cs_ClientCAPath :: string
  cs_CAUpgradeCN :: string
  cs_Refresh :: int
  cs_Header :: "(string \<times> string list) list"

text \<open>\<open>time.Duration\<close> is a number of nanoseconds.\<close>

record Listen =
  Addr :: string
  Proto :: string
  ReadTimeout :: int
  WriteTimeout :: int
  ListenCertSource :: CertSource
  StrictMatch :: bool
  TLSMinVersion :: "16 word"
  TLSMaxVersion :: "16 word"
  TLSCiphers :: "16 word list"

text \<open>The zero values \<open>CertSource{}\<close> and \<open>Listen{}\<close>.\<close>

definition CertSource_zero :: CertSource where
  "CertSource_zero =
     \<lparr>cs_Name = [], cs_Type = [], cs_CertPath = [], cs_KeyPath = [], cs_ClientCAPath = [],
      cs_CAUpgradeCN = [], cs_Refresh = 0, cs_Header = []\<rparr>"

definition Listen_zero :: Listen where
  "Listen_zero =
     \<lparr>Addr = [], Proto = [], ReadTimeout = 0, WriteTimeout = 0,
      ListenCertSource = CertSource_zero, StrictMatch = False, TLSMinVersion = 0,
      TLSMaxVersion = 0, TLSCiphers = []\<rparr>"

text \<open>The tables \<open>tlsver\<close> and \<open>tlsciphers\<close>.\<close>

definition tlsver :: "(string \<times> 16 word) list" where
  "tlsver =
     [(''ssl30'', 0x0300), (''tls10'', 0x0301), (''tls11'', 0x0302), (''tls12'', 0x0303)]"

definition tlsciphers :: "(string \<times> 16 word) list" where
  "tlsciphers =
     [(''TLS_RSA_WITH_RC4_128_SHA'', 0x0005),
      (''TLS_RSA_WITH_3DES_EDE_CBC_SHA'', 0x000a),
      (''TLS_RSA_WITH_AES_128_CBC_SHA'', 0x002f),
      (''TLS_RSA_WITH_AES_256_CBC_SHA'', 0x0035),
      (''TLS_RSA_WITH_AES_128_CBC_SHA256'', 0x003c),
      (''TLS_RSA_WITH_AES_128_GCM_SHA256'', 0x009c),
      (''TLS_RSA_WITH_AES_256_GCM_SHA384'', 0x009d),
      (''TLS_ECDHE_ECDSA_WITH_RC4_128_SHA'', 0xc007),
      (''TLS_ECDHE_ECDSA_WITH_AES_128_CBC_SHA'', 0xc009),
      (''TLS_ECDHE_ECDSA_WITH_AES_256_CBC_SHA'', 0xc00a),
      (''TLS_ECDHE_RSA_WITH_RC4_128_SHA'', 0xc011),
      (''TLS_ECDHE_RSA_WITH_3DES_EDE_CBC_SHA'', 0xc012),
      (''TLS_ECDHE_RSA_WITH_AES_128_CBC_SHA'', 0xc013),
      (''TLS_ECDHE_RSA_WITH_AES_256_CBC_SHA'', 0xc014),
      (''TLS_ECDHE_ECDSA_WITH_AES_128_CBC_SHA256'', 0xc023),
      (''TLS_ECDHE_RSA_WITH_AES_128_CBC_SHA256'', 0xc027),
      (''TLS_ECDHE_RSA_WITH_AES_128_GCM_SHA256'', 0xc02f),
      (''TLS_ECDHE_ECDSA_WITH_AES_128_GCM_SHA256'', 0xc02b),
      (''TLS_ECDHE_RSA_WITH_AES_256_GCM_SHA384'', 0xc030),
      (''TLS_ECDHE_ECDSA_WITH_AES_256_GCM_SHA384'', 0xc02c),
      (''TLS_ECDHE_RSA_WITH_CHACHA20_POLY1305'', 0xcca8),
      (''TLS_ECDHE_ECDSA_WITH_CHACHA20_POLY1305'', 0xcca9)]"

definition parseTLSVersion :: "(string \<Rightarrow> error + 64 word) \<Rightarrow> string \<Rightarrow> error + 16 word" where
  "parseTLSVersion pu s0 =
     (let s = ToLower (TrimSpace s0) in
      case map_of tlsver s of
        Some n \<Rightarrow> Inr n
      | None \<Rightarrow> parseUint16 pu s)"

fun parseTLSCiphers_loop ::
  "(string \<Rightarrow> error + 64 word) \<Rightarrow> 16 word list \<Rightarrow> string list \<Rightarrow> error + 16 word list" where
  "parseTLSCiphers_loop pu c [] = Inr c"
| "parseTLSCiphers_loop pu c (v0 # vs) =
     (let v = ToUpper (TrimSpace v0) in
      case map_of tlsciphers v of
        Some n \<Rightarrow> parseTLSCiphers_loop pu (c @ [n]) vs
      | None \<Rightarrow>
          (case parseUint16 pu v of
             Inl err \<Rightarrow> Inl err
           | Inr n \<Rightarrow> parseTLSCiphers_loop pu (c @ [n]) vs))"

definition parseTLSCiphers :: "(string \<Rightarrow> error + 64 word) \<Rightarrow> string \<Rightarrow> error + 16 word list" where
  "parseTLSCiphers pu s = parseTLSCiphers_loop pu [] (Split s CHR '','')"

text \<open>
  \<open>parseListen\<close> ranges over the map \<open>cfg\<close>; Go fixes no order for that. The model
  takes the entries in the order the loop visits them, an association list with
  distinct keys, so that a statement for every such list is a statement for every
  order. The loop state is the listener \<open>l\<close> and the local \<open>csName\<close>; one entry either
  returns an error or gives the next state. \<open>time.ParseDuration\<close> is the parameter
  \<open>pd\<close>, the certificate sources \<open>cs\<close> are a map.
\<close>

definition parseListen_entry ::
  "(string \<Rightarrow> error + int) \<Rightarrow> (string \<Rightarrow> error + 64 word) \<Rightarrow> (string \<rightharpoonup> CertSource) \<Rightarrow>
   string \<times> string \<Rightarrow> Listen \<times> string \<Rightarrow> error + Listen \<times> string" where
  "parseListen_entry pd pu cs kv st =
     (let k = fst kv; v = snd kv; l = fst st; csName = snd st in
      if k = [] \<or> k = ''addr'' then Inr (l\<lparr>Addr := v\<rparr>, csName)
      else if k = ''proto'' then
        (if v = ''tcp'' \<or> v = ''tcp+sni'' \<or> v = ''http'' \<or> v = ''https''
         then Inr (l\<lparr>Proto := v\<rparr>, csName)
         else Inl (UnknownProtocol v))
      else if k = ''rt'' then
        (case pd v of Inl err \<Rightarrow> Inl err | Inr d \<Rightarrow> Inr (l\<lparr>ReadTimeout := d\<rparr>, csName))
      else if k = ''wt'' then
        (case pd v of Inl err \<Rightarrow> Inl err | Inr d \<Rightarrow> Inr (l\<lparr>WriteTimeout := d\<rparr>, csName))
      else if k = ''cs'' then
        (case cs v of
           None \<Rightarrow> Inl (UnknownCertSource v)
         | Some c \<Rightarrow>
             (let l1 = l\<lparr>ListenCertSource := c\<rparr> in
              Inr (if Proto l1 = [] then l1\<lparr>Proto := ''https''\<rparr> else l1, v)))
      else if k = ''strictmatch'' then Inr (l\<lparr>StrictMatch := (v = ''true'')\<rparr>, csName)
      else if k = ''tlsmin'' then
        (case parseTLSVersion pu v of
           Inl err \<Rightarrow> Inl err
         | Inr n \<Rightarrow> Inr (l\<lparr>TLSMinVersion := n\<rparr>, csName))
      else if k = ''tlsmax'' then
        (case parseTLSVersion pu v of
           Inl err \<Rightarrow> Inl err
         | Inr n \<Rightarrow> Inr (l\<lparr>TLSMaxVersion := n\<rparr>, csName))
      else if k = ''tlsciphers'' then
        (case parseTLSCiphers pu v of
           Inl err \<Rightarrow> Inl err
         | Inr c \<Rightarrow> Inr (l\<lparr>TLSCiphers := c\<rparr>, csName))
      else Inr (l, csName))"

fun parseListen_loop ::
  "(string \<Rightarrow> error + int) \<Rightarrow> (string \<Rightarrow> error + 64 word) \<Rightarrow> (string \<rightharpoonup> CertSource) \<Rightarrow>
   (string \<times> string) list \<Rightarrow> Listen \<times> string \<Rightarrow> error + Listen \<times> string" where
  "parseListen_loop pd pu cs [] st = Inr st"
| "parseListen_loop pd pu cs (kv # kvs) st =
     (case parseListen_entry pd pu cs kv st of
        Inl err \<Rightarrow> Inl err
      | Inr st' \<Rightarrow> parseListen_loop pd pu cs kvs st')"

definition parseListen ::
  "(string \<Rightarrow> error + int) \<Rightarrow> (string \<Rightarrow> error + 64 word) \<Rightarrow>
   (string \<times> string) list \<Rightarrow> (string \<rightharpoonup> CertSource) \<Rightarrow> int \<Rightarrow> int \<Rightarrow> error + Listen" where
  "parseListen pd pu cfg cs readTimeout writeTimeout =
     (case parseListen_loop pd pu cs cfg
             (Listen_zero\<lparr>ReadTimeout := readTimeout, WriteTimeout := writeTimeout\<rparr>, []) of
        Inl err \<Rightarrow> Inl err
      | Inr (l0, csName) \<Rightarrow>
          (let l = (if Proto l0 = [] then l0\<lparr>Proto := ''http''\<rparr> else l0) in
           if Addr l = [] then Inl NeedHostPort
           else if csName \<noteq> [] \<and> Proto l \<noteq> ''https'' \<and> Proto l \<noteq> ''tcp''
             then Inl CertSourceRequiresProto
           else if csName = [] \<and> Proto l = ''https'' then Inl HttpsRequiresCertSource
           else Inr l))"

section \<open>Package main: the route logger\<close>

text \<open>
  A \<open>Diff\<close> of the diff library: an operation and a text. \<open>DiffMain\<close> itself is a
  function of that library and a parameter of the model.
\<close>

datatype Operation = DiffDelete | DiffInsert | DiffEqual

datatype Diff = Diff (diff_Type: Operation) (diff_Text: string)

text \<open>\<open>strings.Replace(t, "\n", r, -1)\<close>: every line feed of \<open>t\<close> becomes \<open>r\<close>.\<close>

definition Replace_newline :: "string \<Rightarrow> string \<Rightarrow> string" where
  "Replace_newline t r = concat (map (\<lambda>c. if c = CHR 0x0A then r else [c]) t)"

text \<open>
  The closure \<open>fmtDiff\<close> of \<open>logRoutes\<close>: the loop appends to the buffer \<open>b\<close>; a
  diff of type \<open>DiffEqual\<close> matches no case of the switch and writes nothing.
\<close>

fun fmtDiff_loop :: "string \<Rightarrow> Diff list \<Rightarrow> string" where
  "fmtDiff_loop b [] = b"
| "fmtDiff_loop b (d # ds) =
     (let t = TrimSpace (diff_Text d) in
      if t = [] then fmtDiff_loop b ds
      else
        (case diff_Type d of
           DiffDelete \<Rightarrow>
             fmtDiff_loop (b @ ''- '' @ Replace_newline t [CHR 0x0A, CHR ''-'', CHR '' '']) ds
         | DiffInsert \<Rightarrow>
             fmtDiff_loop (b @ ''+ '' @ Replace_newline t [CHR 0x0A, CHR ''+'', CHR '' '']) ds
         | DiffEqual \<Rightarrow> fmtDiff_loop b ds))"

definition fmtDiff :: "Diff list \<Rightarrow> string" where
  "fmtDiff diffs = fmtDiff_loop [] diffs"

text \<open>
  What the program writes to its log, by the format string of the source:
  \<open>"[INFO] Updated config to\n%s"\<close>, \<open>"[INFO] Config updates\n%s"\<close>,
  \<open>"[WARN] Invalid route format %q. Defaulting to %q"\<close> and \<open>"[WARN] %s"\<close>.
\<close>

datatype log_line =
    Info_UpdatedConfig string
  | Info_ConfigUpdates string
  | Warn_InvalidRouteFormat string string
  | Warn_Error error

text \<open>
  The collaborators of the reload loop: the compiler \<open>route.NewTable\<close>, the dump of a
  table and \<open>dmp.New().DiffMain(last, next, true)\<close>.
\<close>

record 't collab =
  NewTable :: "string \<Rightarrow> error + 't"
  Dump :: "'t \<Rightarrow> string"
  DiffMain :: "string \<Rightarrow> string \<Rightarrow> Diff list"

definition defFormat :: string where
  "defFormat = ''delta''"

text \<open>
  \<open>logRoutes\<close> returns the lines it logs, in order (\<open>prev\<close> is the parameter \<open>last\<close>
  of the source).
\<close>

function logRoutes :: "'t collab \<Rightarrow> 't \<Rightarrow> string \<Rightarrow> string \<Rightarrow> string \<Rightarrow> log_line list" where
  "logRoutes c t prev next format =
     (if format = ''detail'' then [Info_UpdatedConfig (Dump c t)]
      else if format = ''delta'' then
        (let delta = fmtDiff (DiffMain c prev next) in
         if delta \<noteq> [] then [Info_ConfigUpdates delta] else [])
      else if format = ''all'' then [Info_UpdatedConfig next]
      else Warn_InvalidRouteFormat format defFormat # logRoutes c t prev next defFormat)"
  by pat_completeness auto
termination
  by (relation "measure (\<lambda>(c, t, prev, next, format). if format = ''delta'' then 0 else 1)")
    (auto simp: defFormat_def)

declare logRoutes.simps [simp del]

section \<open>Package main: the reload loop\<close>

text \<open>
  The effects of \<open>watchBackend\<close> that another component can observe, in the order they
  happen: a call of the compiler, the swap of the current table, a log line, and the
  close of the channel \<open>first\<close>.
\<close>

datatype 't wb_event =
    ENewTable string
  | ESetTable 't
  | ELog log_line
  | ECloseFirst

text \<open>
  The locals of \<open>watchBackend\<close> (\<open>last\<close> as \<open>wb_last\<close>, \<open>svccfg\<close>, \<open>mancfg\<close>, and \<open>once\<close> as the flag
  whether it has run), the current table of package \<open>route\<close>, the channel \<open>first\<close> and
  the trace of events.
\<close>

record 't wb_state =
  wb_last :: string
  svccfg :: string
  mancfg :: string
  once_done :: bool
  table :: "'t option"
  first_closed :: bool
  events :: "'t wb_event list"

definition wb_init :: "'t wb_state" where
  "wb_init =
     \<lparr>wb_last = [], svccfg = [], mancfg = [], once_done = False, table = None,
      first_closed = False, events = []\<rparr>"

text \<open>A value received by the \<open>select\<close>: from \<open>svc\<close> or from \<open>man\<close>.\<close>

datatype notification = Svc string | Man string

definition receive :: "'t wb_state \<Rightarrow> notification \<Rightarrow> 't wb_state" where
  "receive s n = (case n of Svc v \<Rightarrow> s\<lparr>svccfg := v\<rparr> | Man v \<Rightarrow> s\<lparr>mancfg := v\<rparr>)"

definition next_of :: "'t wb_state \<Rightarrow> string" where
  "next_of s = svccfg s @ [CHR 0x0A] @ mancfg s"

text \<open>\<open>once.Do(func() { close(first) })\<close>.\<close>

definition once_Do_close_first :: "'t wb_state \<Rightarrow> 't wb_state" where
  "once_Do_close_first s =
     (if once_done s then s
      else s\<lparr>once_done := True, first_closed := True, events := events s @ [ECloseFirst]\<rparr>)"

text \<open>One iteration of the loop of \<open>watchBackend\<close>, for the value the \<open>select\<close> received.\<close>

definition watchBackend_step :: "'t collab \<Rightarrow> string \<Rightarrow> 't wb_state \<Rightarrow> notification \<Rightarrow> 't wb_state" where
  "watchBackend_step c format s0 n =
     (let s = receive s0 n; next = next_of s in
      if next = wb_last s then s
      else
        (case NewTable c next of
           Inl err \<Rightarrow> s\<lparr>events := events s @ [ENewTable next, ELog (Warn_Error err)]\<rparr>
         | Inr t \<Rightarrow>
             once_Do_close_first
               (s\<lparr>table := Some t,
                  events := events s @ [ENewTable next, ESetTable t] @
                            map ELog (logRoutes c t (wb_last s) next format),
                  wb_last := next\<rparr>)))"

text \<open>The loop on the notifications received so far, from the start of \<open>watchBackend\<close>.\<close>

definition watchBackend :: "'t collab \<Rightarrow> string \<Rightarrow> notification list \<Rightarrow> 't wb_state" where
  "watchBackend c format ns = foldl (watchBackend_step c format) wb_init ns"

section \<open>Package main: the shutdown handler\<close>

text \<open>
  Profiling in \<open>main\<close>: \<open>prof\<close> stays nil when \<open>cfg.ProfileMode\<close> is empty, an unknown
  mode is fatal, and otherwise \<open>profile.Start\<close> gives the collector.
\<close>

datatype fatal =
    InvalidProfileMode string      \<comment> \<open>\<open>"[FATAL] Invalid profile mode %q"\<close>\<close>
  | UnknownRegistryBackend string  \<comment> \<open>\<open>"[FATAL] Unknown registry backend "\<close>\<close>
  | TimeoutRegisteringBackend      \<comment> \<open>\<open>"[FATAL] Timeout registering backend."\<close>\<close>

datatype prof = Profile string

definition start_profile :: "string \<Rightarrow> fatal + prof option" where
  "start_profile mode =
     (if mode \<noteq> [] then
        (if mode = ''cpu'' \<or> mode = ''mem'' \<or> mode = ''mutex'' \<or> mode = ''block''
         then Inr (Some (Profile mode))
         else Inl (InvalidProfileMode mode))
      else Inr None)"

datatype sd_event =
    EStoreShuttingDown "32 word"
  | EProxyShutdown int
  | EProfStop
  | EDeregister

text \<open>
  The globals the handler touches: the flag \<open>shuttingDown\<close> (an \<open>int32\<close>) and
  \<open>registry.Default\<close> (here: whether it is non-nil), and the trace of its calls.
\<close>

record sd_state =
  shuttingDown :: "32 word"
  registry_Default :: bool
  sd_events :: "sd_event list"

text \<open>
  The function \<open>main\<close> passes to \<open>exit.Listen\<close>; \<open>wait\<close> is \<open>cfg.Proxy.ShutdownWait\<close> and
  \<open>pr\<close> the variable \<open>prof\<close> it captures.
\<close>

definition shutdown_handler :: "int \<Rightarrow> prof option \<Rightarrow> sd_state \<Rightarrow> sd_state" where
  "shutdown_handler wait pr s =
     (let s1 = s\<lparr>shuttingDown := 1, sd_events := sd_events s @ [EStoreShuttingDown 1]\<rparr>;
          s2 = s1\<lparr>sd_events := sd_events s1 @ [EProxyShutdown wait]\<rparr>;
          s3 = (if pr \<noteq> None then s2\<lparr>sd_events := sd_events s2 @ [EProfStop]\<rparr> else s2)
      in if \<not> registry_Default s3 then s3
         else s3\<lparr>sd_events := sd_events s3 @ [EDeregister]\<rparr>)"

text \<open>The handler run once for each signal of a list of signals.\<close>

definition shutdown_signals :: "int \<Rightarrow> prof option \<Rightarrow> 'sig list \<Rightarrow> sd_state \<Rightarrow> sd_state" where
  "shutdown_signals wait pr sigs s = foldl (\<lambda>s' sg. shutdown_handler wait pr s') s sigs"

section \<open>Package main: registering with the backend\<close>

text \<open>
  What \<open>initBackend\<close> needs of its surroundings: the configuration (\<open>cfg.Registry\<close>),
  the outcome of the \<open>k\<close>-th attempt (the constructor of the backend or its
  \<open>Register\<close> fails, or both succeed), the time one attempt and its log line take, and
  the value of the flag \<open>shuttingDown\<close> at a given time. Times are nanoseconds.
\<close>

datatype attempt_result = NewBackendError error | RegisterError error | Registered

record ib_env =
  Backend :: string
  Timeout :: int
  Retry :: int
  attempt :: "nat \<Rightarrow> attempt_result"
  elapse :: int
  shuttingDown_at :: "int \<Rightarrow> 32 word"

datatype ib_event =
    EAttempt
  | EWarn error
  | EDeadlineCheck
  | ESleep int
  | EShutdownCheck

record ib_state =
  now :: int
  attempts :: nat
  ib_events :: "ib_event list"

text \<open>
  Modelled from the spec: package \<open>exit\<close> is not among the sources; by the
  specification \<open>exit.Fatal\<close> terminates the process with a fatal error and
  \<open>exit.Exit(code)\<close> exits at once with that code, so neither returns to the loop.
  \<open>initBackend\<close> ends in one of three ways: it returns, or the process ends in
  \<open>exit.Fatal\<close> or in \<open>exit.Exit(code)\<close>.
\<close>

datatype ib_result = Returned | Fatal fatal | Exit int

fun attempt_error :: "attempt_result \<Rightarrow> error option" where
  "attempt_error (NewBackendError err) = Some err"
| "attempt_error (RegisterError err) = Some err"
| "attempt_error Registered = None"

text \<open>
  The loop of \<open>initBackend\<close>. It has no bound of its own, so the model is a partial
  function: \<open>None\<close> is a loop that never ends. \<open>time.Now().After(deadline)\<close> is strict,
  and \<open>time.Sleep\<close> of a duration that is not positive returns at once.
\<close>

partial_function (option) initBackend_loop :: "ib_env \<Rightarrow> int \<Rightarrow> ib_state \<Rightarrow> (ib_result \<times> ib_state) option" where
  "initBackend_loop env deadline s =
     (if Backend env \<noteq> ''file'' \<and> Backend env \<noteq> ''static'' \<and> Backend env \<noteq> ''consul'' then
        Some (Fatal (UnknownRegistryBackend (Backend env)), s)
      else
        (let s1 = s\<lparr>now := now s + elapse env, attempts := attempts s + 1,
                     ib_events := ib_events s @ [EAttempt]\<rparr> in
         case attempt_error (attempt env (attempts s)) of
           None \<Rightarrow> Some (Returned, s1)
         | Some err \<Rightarrow>
             (let s2 = s1\<lparr>ib_events := ib_events s1 @ [EWarn err, EDeadlineCheck]\<rparr> in
              if now s2 > deadline then Some (Fatal TimeoutRegisteringBackend, s2)
              else
                (let s3 = s2\<lparr>now := now s2 + max 0 (Retry env),
                              ib_events := ib_events s2 @ [ESleep (Retry env), EShutdownCheck]\<rparr> in
                 if sint (shuttingDown_at env (now s3)) > 0 then Some (Exit 1, s3)
                 else initBackend_loop env deadline s3))))"

text \<open>\<open>initBackend\<close> entered at time \<open>t0\<close>: the deadline is \<open>t0\<close> plus the timeout.\<close>

definition initBackend :: "ib_env \<Rightarrow> int \<Rightarrow> (ib_result \<times> ib_state) option" where
  "initBackend env t0 =
     initBackend_loop env (t0 + Timeout env) \<lparr>now = t0, attempts = 0, ib_events = []\<rparr>"

section \<open>Predicates and example inputs of the properties\<close>

text \<open>The text in \<open>last\<close> is empty or a text the compiler accepted.\<close>

definition last_accepted :: "'t collab \<Rightarrow> 't wb_state \<Rightarrow> bool" where
  "last_accepted c s = (wb_last s = [] \<or> (\<exists>t. NewTable c (wb_last s) = Inr t))"

text \<open>
  Two shapes of a trace of the reload loop: no table published and \<open>first\<close> not closed
  yet, or \<open>first\<close> closed once, after the log lines of the first published table.
\<close>

definition quiet :: "'t wb_event list \<Rightarrow> bool" where
  "quiet es = ((\<forall>t'. ESetTable t' \<notin> set es) \<and> ECloseFirst \<notin> set es)"

definition fired_at_first_publish :: "'t wb_event list \<Rightarrow> bool" where
  "fired_at_first_publish es =
     (\<exists>pre t logs post.
        es = pre @ ESetTable t # map ELog logs @ ECloseFirst # post \<and>
        (\<forall>t'. ESetTable t' \<notin> set pre) \<and> ECloseFirst \<notin> set pre \<and> ECloseFirst \<notin> set post)"

definition gate_inv :: "'t wb_state \<Rightarrow> bool" where
  "gate_inv s =
     (first_closed s = once_done s \<and>
      (if once_done s then fired_at_first_publish (events s) else quiet (events s)))"

text \<open>The backend kinds the switch of \<open>initBackend\<close> knows.\<close>

definition known_backend :: "ib_env \<Rightarrow> bool" where
  "known_backend env =
     (Backend env = ''file'' \<or> Backend env = ''static'' \<or> Backend env = ''consul'')"

text \<open>
  Example collaborators: a compiler that rejects every text with an exclamation mark
  and whose table is the text itself, with a diff that replaces the whole text; a
  backend whose registration fails every time while no shutdown is requested; a
  duration parser that rejects everything; a certificate source.
\<close>

definition toy_collab :: "string collab" where
  "toy_collab =
     \<lparr>NewTable = (\<lambda>s. if CHR ''!'' \<in> set s then Inl (ExternalError s) else Inr s),
      Dump = (\<lambda>t. t),
      DiffMain = (\<lambda>prev next. if prev = next then [Diff DiffEqual prev]
                               else [Diff DiffDelete prev, Diff DiffInsert next])\<rparr>"

definition failing_env :: "int \<Rightarrow> int \<Rightarrow> int \<Rightarrow> ib_env" where
  "failing_env D R e =
     \<lparr>Backend = ''consul'', Timeout = D, Retry = R,
      attempt = (\<lambda>k. RegisterError (ExternalError ''unavailable'')),
      elapse = e, shuttingDown_at = (\<lambda>t. 0)\<rparr>"

definition no_duration :: "string \<Rightarrow> error + int" where
  "no_duration s = Inl (DurationError s)"

definition path_source :: CertSource where
  "path_source =
     CertSource_zero\<lparr>cs_Name := ''name'', cs_Type := ''path'', cs_CertPath := ''value'',
       cs_Refresh := 3000000000\<rparr>"

section \<open>Properties of package iam\<close>

text \<open>
  C10: \<open>New\<close> returns an error for every auth type other than \<open>dummy\<close>; for \<open>dummy\<close> it
  returns the dummy handle with no error, and \<open>Init\<close>, \<open>Authenticate\<close> and \<open>Authorize\<close>
  of that handle return no error, whatever their arguments.
\<close>

theorem New_dummy_only:
  "(auth_Type conf \<noteq> ''dummy'' \<longrightarrow>
      New conf = (None, Some (UnsupportedAuthType (auth_Type conf))))
   \<and> (auth_Type conf = ''dummy'' \<longrightarrow> New conf = (Some DummyIAM, None))
   \<and> Init DummyIAM cfgfile = None
   \<and> Authenticate DummyIAM r = (EmptyStruct, None)
   \<and> Authorize DummyIAM r d = None"
  by (simp add: New_def)

theorem New_dummy_only_witness:
  "New \<lparr>auth_Type = ''jwt'', auth_ConfigFile = ''/etc/auth'', auth_Enabled = True\<rparr> =
     (None, Some (UnsupportedAuthType ''jwt''))
   \<and> New \<lparr>auth_Type = ''dummy'', auth_ConfigFile = ''/etc/auth'', auth_Enabled = True\<rparr> =
     (Some DummyIAM, None)"
  using
    New_dummy_only [of "\<lparr>auth_Type = ''jwt'', auth_ConfigFile = ''/etc/auth'', auth_Enabled = True\<rparr>"]
    New_dummy_only [of "\<lparr>auth_Type = ''dummy'', auth_ConfigFile = ''/etc/auth'', auth_Enabled = True\<rparr>"]
  by simp

section \<open>Properties of package config\<close>

lemma ParseUint_65536: "ParseUint ''65536'' = Inr 65536"
  by (simp add: ParseUint_def digit_val_def)

lemma ParseUint_65537: "ParseUint ''65537'' = Inr 65537"
  by (simp add: ParseUint_def digit_val_def)

lemma OutOfRange_message:
  "error_message (OutOfRange 65537) = Some ''65537 out of range: [0..65535]''"
  by (simp add: show_nat.simps digit_char_def)

text \<open>
  C9: \<open>parseUint16\<close> returns an error exactly when \<open>ParseUint\<close> returns one or the parsed
  value is strictly greater than 65536. The input \<open>65536\<close> is accepted and gives the
  16-bit value 0; \<open>65537\<close> is the first value refused, with a message that names the
  range \<open>[0..65535]\<close>.
\<close>

theorem parseUint16_error_iff:
  "((\<exists>err. parseUint16 pu s = Inl err) =
      ((\<exists>err. pu s = Inl err) \<or> (\<exists>n. pu s = Inr n \<and> 65536 < n)))
   \<and> parseUint16 ParseUint ''65536'' = Inr 0
   \<and> parseUint16 ParseUint ''65537'' = Inl (OutOfRange 65537)
   \<and> error_message (OutOfRange 65537) = Some ''65537 out of range: [0..65535]''"
proof -
  have "(\<exists>err. parseUint16 pu s = Inl err) =
      ((\<exists>err. pu s = Inl err) \<or> (\<exists>n. pu s = Inr n \<and> 65536 < n))"
    by (auto simp: parseUint16_def split: sum.splits)
  moreover have "parseUint16 ParseUint ''65536'' = Inr 0"
    by (simp add: parseUint16_def ParseUint_65536)
  moreover have "parseUint16 ParseUint ''65537'' = Inl (OutOfRange 65537)"
    by (simp add: parseUint16_def ParseUint_65537)
  ultimately show ?thesis
    using OutOfRange_message by blast
qed

text \<open>What one entry of the listener configuration does to \<open>csName\<close> and to the protocol.\<close>

lemma entry_csName_other:
  "fst kv \<noteq> ''cs'' \<Longrightarrow> parseListen_entry pd pu cs kv (l, n) = Inr (l', n') \<Longrightarrow> n' = n"
  by (auto simp: parseListen_entry_def Let_def split: if_splits sum.splits option.splits)

lemma entry_csName_cs:
  "parseListen_entry pd pu cs (''cs'', v) (l, n) = Inr (l', n') \<Longrightarrow> n' = v"
  by (auto simp: parseListen_entry_def Let_def split: if_splits sum.splits option.splits)

lemma entry_Proto_other:
  "fst kv \<noteq> ''proto'' \<Longrightarrow> Proto l \<noteq> [] \<Longrightarrow>
   parseListen_entry pd pu cs kv (l, n) = Inr (l', n') \<Longrightarrow> Proto l' = Proto l"
  by (auto simp: parseListen_entry_def Let_def split: if_splits sum.splits option.splits)

lemma entry_Proto_proto:
  "parseListen_entry pd pu cs (''proto'', p) (l, n) = Inr (l', n') \<Longrightarrow> Proto l' = p \<and> p \<noteq> []"
  by (auto simp: parseListen_entry_def Let_def split: if_splits sum.splits option.splits)

lemma loop_csName_keep:
  "''cs'' \<notin> fst ` set cfg \<Longrightarrow> parseListen_loop pd pu cs cfg (l, n) = Inr (l', n') \<Longrightarrow> n' = n"
proof (induction cfg arbitrary: l n)
  case Nil
  then show ?case by simp
next
  case (Cons kv cfg)
  from Cons.prems(2) obtain l1 n1 where
    e: "parseListen_entry pd pu cs kv (l, n) = Inr (l1, n1)" and
    r: "parseListen_loop pd pu cs cfg (l1, n1) = Inr (l', n')"
    by (auto split: sum.splits)
  from Cons.prems(1) have k: "fst kv \<noteq> ''cs''" by auto
  from entry_csName_other [OF k e] have "n1 = n" .
  moreover from Cons.prems(1) have "''cs'' \<notin> fst ` set cfg" by auto
  from Cons.IH [OF this r] have "n' = n1" .
  ultimately show ?case by simp
qed

lemma loop_csName:
  "distinct (map fst cfg) \<Longrightarrow> (''cs'', v) \<in> set cfg \<Longrightarrow>
   parseListen_loop pd pu cs cfg (l, n) = Inr (l', n') \<Longrightarrow> n' = v"
proof (induction cfg arbitrary: l n)
  case Nil
  then show ?case by simp
next
  case (Cons kv cfg)
  from Cons.prems(3) obtain l1 n1 where
    e: "parseListen_entry pd pu cs kv (l, n) = Inr (l1, n1)" and
    r: "parseListen_loop pd pu cs cfg (l1, n1) = Inr (l', n')"
    by (auto split: sum.splits)
  show ?case
  proof (cases "kv = (''cs'', v)")
    case True
    with e have "n1 = v" by (auto dest: entry_csName_cs)
    moreover from True Cons.prems(1) have "''cs'' \<notin> fst ` set cfg" by auto
    from loop_csName_keep [OF this r] have "n' = n1" .
    ultimately show ?thesis by simp
  next
    case False
    with Cons.prems(2) have m: "(''cs'', v) \<in> set cfg" by auto
    from Cons.prems(1) have d: "distinct (map fst cfg)" by simp
    from Cons.IH [OF d m r] show ?thesis .
  qed
qed

lemma loop_Proto_keep:
  "''proto'' \<notin> fst ` set cfg \<Longrightarrow> Proto l \<noteq> [] \<Longrightarrow>
   parseListen_loop pd pu cs cfg (l, n) = Inr (l', n') \<Longrightarrow> Proto l' = Proto l"
proof (induction cfg arbitrary: l n)
  case Nil
  then show ?case by simp
next
  case (Cons kv cfg)
  from Cons.prems(3) obtain l1 n1 where
    e: "parseListen_entry pd pu cs kv (l, n) = Inr (l1, n1)" and
    r: "parseListen_loop pd pu cs cfg (l1, n1) = Inr (l', n')"
    by (auto split: sum.splits)
  from Cons.prems(1) have k: "fst kv \<noteq> ''proto''" by auto
  from entry_Proto_other [OF k Cons.prems(2) e] have p1: "Proto l1 = Proto l" .
  from Cons.prems(1) have "''proto'' \<notin> fst ` set cfg" by auto
  from Cons.IH [OF this _ r] p1 Cons.prems(2) show ?case by simp
qed

lemma loop_Proto:
  "distinct (map fst cfg) \<Longrightarrow> (''proto'', p) \<in> set cfg \<Longrightarrow>
   parseListen_loop pd pu cs cfg (l, n) = Inr (l', n') \<Longrightarrow> Proto l' = p"
proof (induction cfg arbitrary: l n)
  case Nil
  then show ?case by simp
next
  case (Cons kv cfg)
  from Cons.prems(3) obtain l1 n1 where
    e: "parseListen_entry pd pu cs kv (l, n) = Inr (l1, n1)" and
    r: "parseListen_loop pd pu cs cfg (l1, n1) = Inr (l', n')"
    by (auto split: sum.splits)
  show ?case
  proof (cases "kv = (''proto'', p)")
    case True
    with e have p1: "Proto l1 = p \<and> p \<noteq> []" by (auto dest: entry_Proto_proto)
    from True Cons.prems(1) have "''proto'' \<notin> fst ` set cfg" by auto
    from loop_Proto_keep [OF this _ r] p1 show ?thesis by simp
  next
    case False
    with Cons.prems(2) have m: "(''proto'', p) \<in> set cfg" by auto
    from Cons.prems(1) have d: "distinct (map fst cfg)" by simp
    from Cons.IH [OF d m r] show ?thesis .
  qed
qed

text \<open>A listener that is accepted with a named certificate source is \<open>https\<close> or \<open>tcp\<close>.\<close>

lemma parseListen_cs_proto:
  assumes "distinct (map fst cfg)" and "(''cs'', v) \<in> set cfg" and "v \<noteq> []"
    and "parseListen pd pu cfg cs rt wt = Inr l"
  shows "Proto l = ''https'' \<or> Proto l = ''tcp''"
  using assms(4) loop_csName [OF assms(1,2)] assms(3)
  by (fastforce simp: parseListen_def Let_def split: sum.splits prod.splits if_splits)

text \<open>
  C7, as the code has it: a listener configuration with proto \<open>tcp+sni\<close> that names a
  certificate source (\<open>cs\<close> with a name that is not empty) is rejected by \<open>parseListen\<close>,
  in whatever order the entries of the map are visited; no such listener reaches
  \<open>startServers\<close>.
\<close>

theorem parseListen_sni_with_cert_source_rejected:
  assumes "distinct (map fst cfg)" and "(''proto'', ''tcp+sni'') \<in> set cfg"
    and "(''cs'', v) \<in> set cfg" and "v \<noteq> []"
  shows "\<exists>err. parseListen pd pu cfg cs rt wt = Inl err"
proof (cases "parseListen pd pu cfg cs rt wt")
  case (Inl err)
  then show ?thesis by blast
next
  case (Inr l)
  from parseListen_cs_proto [OF assms(1,3,4) Inr]
  have 1: "Proto l = ''https'' \<or> Proto l = ''tcp''" .
  from Inr obtain l0 n0 where
    lp: "parseListen_loop pd pu cs cfg
           (Listen_zero\<lparr>ReadTimeout := rt, WriteTimeout := wt\<rparr>, []) = Inr (l0, n0)"
    and l: "l = (if Proto l0 = [] then l0\<lparr>Proto := ''http''\<rparr> else l0)"
    by (auto simp: parseListen_def Let_def split: sum.splits prod.splits if_splits)
  from loop_Proto [OF assms(1,2) lp] have "Proto l0 = ''tcp+sni''" .
  with l have "Proto l = ''tcp+sni''" by simp
  with 1 show ?thesis by simp
qed

theorem parseListen_sni_with_cert_source_rejected_witness:
  "\<exists>err. parseListen no_duration ParseUint
           [(''addr'', '':8443''), (''cs'', ''name''), (''proto'', ''tcp+sni'')]
           [''name'' \<mapsto> path_source] 0 0 = Inl err"
  using parseListen_sni_with_cert_source_rejected
    [of "[(''addr'', '':8443''), (''cs'', ''name''), (''proto'', ''tcp+sni'')]" "''name''"
        no_duration ParseUint "[''name'' \<mapsto> path_source]" 0 0]
  by simp

text \<open>
  The claim C7 as stated fails: the listener \<open>:8443\<close> with proto \<open>tcp+sni\<close> and an
  existing certificate source is refused, with the error "cert source requires proto
  'https' or 'tcp'", whether the loop sees \<open>proto\<close> before \<open>cs\<close> or after it.
\<close>

theorem parseListen_sni_with_cert_source_counterexample:
  "parseListen no_duration ParseUint
     [(''addr'', '':8443''), (''proto'', ''tcp+sni''), (''cs'', ''name'')]
     [''name'' \<mapsto> path_source] 0 0 = Inl CertSourceRequiresProto
   \<and> parseListen no_duration ParseUint
     [(''cs'', ''name''), (''proto'', ''tcp+sni''), (''addr'', '':8443'')]
     [''name'' \<mapsto> path_source] 0 0 = Inl CertSourceRequiresProto"
  by (simp add: parseListen_def parseListen_entry_def Listen_zero_def Let_def)

section \<open>Properties of the shutdown handler\<close>

lemma shutdown_handler_flag: "shuttingDown (shutdown_handler wait pr s) = 1"
  by (simp add: shutdown_handler_def Let_def)

lemma shutdown_signals_flag:
  "shuttingDown s = 1 \<Longrightarrow> shuttingDown (shutdown_signals wait pr sigs s) = 1"
  unfolding shutdown_signals_def
  by (induction sigs arbitrary: s) (simp_all add: shutdown_handler_flag)

lemma start_profile_active: "start_profile mode = Inr pr \<Longrightarrow> (pr \<noteq> None) = (mode \<noteq> [])"
  by (auto simp: start_profile_def split: if_splits)

text \<open>
  C4: the handler stores 1 in \<open>shuttingDown\<close>, then calls \<open>proxy.Shutdown\<close> with the
  configured wait, then stops the profile if there is one (there is one exactly when a
  profile mode is configured), then deregisters if \<open>registry.Default\<close> is not nil and
  does nothing more if it is nil. The flag is 1 after the handler, and stays 1
  through any further signals.
\<close>

theorem shutdown_handler_order:
  "sd_events (shutdown_handler wait pr s) =
     sd_events s @ [EStoreShuttingDown 1, EProxyShutdown wait] @
       (if pr \<noteq> None then [EProfStop] else []) @
       (if registry_Default s then [EDeregister] else [])
   \<and> shuttingDown (shutdown_handler wait pr s) = 1
   \<and> shuttingDown (shutdown_signals wait pr sigs (shutdown_handler wait pr s)) = 1
   \<and> registry_Default (shutdown_handler wait pr s) = registry_Default s
   \<and> (start_profile mode = Inr pr \<longrightarrow> (pr \<noteq> None) = (mode \<noteq> []))"
proof -
  have "sd_events (shutdown_handler wait pr s) =
     sd_events s @ [EStoreShuttingDown 1, EProxyShutdown wait] @
       (if pr \<noteq> None then [EProfStop] else []) @
       (if registry_Default s then [EDeregister] else [])"
    by (simp add: shutdown_handler_def Let_def)
  moreover have "shuttingDown (shutdown_signals wait pr sigs (shutdown_handler wait pr s)) = 1"
    by (simp add: shutdown_signals_flag shutdown_handler_flag)
  moreover have "registry_Default (shutdown_handler wait pr s) = registry_Default s"
    by (simp add: shutdown_handler_def Let_def)
  moreover have "start_profile mode = Inr pr \<longrightarrow> (pr \<noteq> None) = (mode \<noteq> [])"
    using start_profile_active by blast
  ultimately show ?thesis
    using shutdown_handler_flag by blast
qed

theorem shutdown_handler_order_witness:
  "start_profile ''cpu'' = Inr (Some (Profile ''cpu''))
   \<and> sd_events (shutdown_handler 5000000000 (Some (Profile ''cpu''))
        \<lparr>shuttingDown = 0, registry_Default = True, sd_events = []\<rparr>) =
       [EStoreShuttingDown 1, EProxyShutdown 5000000000, EProfStop, EDeregister]
   \<and> sd_events (shutdown_handler 5000000000 None
        \<lparr>shuttingDown = 0, registry_Default = False, sd_events = []\<rparr>) =
       [EStoreShuttingDown 1, EProxyShutdown 5000000000]"
proof -
  note a = shutdown_handler_order [of 5000000000 "Some (Profile ''cpu'')"
      "\<lparr>shuttingDown = 0, registry_Default = True, sd_events = []\<rparr>" "[] :: unit list" "''cpu''"]
  note b = shutdown_handler_order [of 5000000000 None
      "\<lparr>shuttingDown = 0, registry_Default = False, sd_events = []\<rparr>" "[] :: unit list" "[]"]
  have c: "start_profile ''cpu'' = Inr (Some (Profile ''cpu''))"
    by (simp add: start_profile_def)
  from a have "sd_events (shutdown_handler 5000000000 (Some (Profile ''cpu''))
        \<lparr>shuttingDown = 0, registry_Default = True, sd_events = []\<rparr>) =
       [EStoreShuttingDown 1, EProxyShutdown 5000000000, EProfStop, EDeregister]"
    by simp
  moreover from b have "sd_events (shutdown_handler 5000000000 None
        \<lparr>shuttingDown = 0, registry_Default = False, sd_events = []\<rparr>) =
       [EStoreShuttingDown 1, EProxyShutdown 5000000000]"
    by simp
  ultimately show ?thesis using c by blast
qed

section \<open>Properties of the route logger\<close>

lemma fmtDiff_loop_blank:
  "\<forall>d \<in> set diffs. diff_Type d = DiffEqual \<or> TrimSpace (diff_Text d) = [] \<Longrightarrow>
   fmtDiff_loop b diffs = b"
  by (induction diffs arbitrary: b) (auto simp: Let_def split: Operation.splits)

text \<open>
  The second half of C8 holds: when every inserted or deleted text of the diff is
  blank, the delta logger logs nothing.
\<close>

lemma logRoutes_delta_nothing:
  assumes "\<forall>d \<in> set (DiffMain c prev next).
             diff_Type d = DiffEqual \<or> TrimSpace (diff_Text d) = []"
  shows "logRoutes c t prev next ''delta'' = []"
  using fmtDiff_loop_blank [OF assms, of "[]"] by (simp add: logRoutes.simps fmtDiff_def)

text \<open>
  C8, first half, on the code: for the previous text \<open>a\<newline>b\<close> and the next text
  \<open>a\<newline>c\<close> the diff library gives an equality \<open>a\<newline>\<close>, a deletion \<open>b\<close> and an insertion
  \<open>c\<close>. \<open>fmtDiff\<close> writes nothing for \<open>a\<close>, and writes the deletion and the insertion
  with no line break between them: the output is the single line \<open>- b+ c\<close>, so that
  neither \<open>- b\<close> nor \<open>+ c\<close> is a line of it.
\<close>

theorem fmtDiff_replaced_line_joined:
  "fmtDiff [Diff DiffEqual ''a\<newline>'', Diff DiffDelete ''b'', Diff DiffInsert ''c''] = ''- b+ c''
   \<and> Split (fmtDiff [Diff DiffEqual ''a\<newline>'', Diff DiffDelete ''b'', Diff DiffInsert ''c''])
        CHR ''\<newline>'' = [''- b+ c'']
   \<and> ''- b'' \<notin> set (Split (fmtDiff
        [Diff DiffEqual ''a\<newline>'', Diff DiffDelete ''b'', Diff DiffInsert ''c'']) CHR ''\<newline>'')
   \<and> ''+ c'' \<notin> set (Split (fmtDiff
        [Diff DiffEqual ''a\<newline>'', Diff DiffDelete ''b'', Diff DiffInsert ''c'']) CHR ''\<newline>'')"
proof -
  have "fmtDiff [Diff DiffEqual ''a\<newline>'', Diff DiffDelete ''b'', Diff DiffInsert ''c''] = ''- b+ c''"
    by (simp add: fmtDiff_def TrimSpace_def isSpace_def Replace_newline_def)
  then show ?thesis by simp
qed

section \<open>Properties of the reload loop\<close>

lemma watchBackend_snoc:
  "watchBackend c format (ns @ [n]) = watchBackend_step c format (watchBackend c format ns) n"
  by (simp add: watchBackend_def)

lemma watchBackend_Nil: "watchBackend c format [] = wb_init"
  by (simp add: watchBackend_def)

lemma receive_fields:
  "wb_last (receive s n) = wb_last s" "table (receive s n) = table s"
  "once_done (receive s n) = once_done s" "first_closed (receive s n) = first_closed s"
  "events (receive s n) = events s"
  by (cases n; simp add: receive_def)+

lemma next_of_not_Nil: "next_of s \<noteq> []"
  by (simp add: next_of_def)

lemma last_accepted_step:
  "last_accepted c s \<Longrightarrow> last_accepted c (watchBackend_step c format s n)"
  by (auto simp: last_accepted_def watchBackend_step_def Let_def receive_fields
      once_Do_close_first_def split: sum.splits)

lemma last_accepted_watchBackend: "last_accepted c (watchBackend c format ns)"
proof (induction ns rule: rev_induct)
  case Nil
  show ?case by (simp add: watchBackend_Nil last_accepted_def wb_init_def)
next
  case (snoc n ns)
  then show ?case by (simp add: watchBackend_snoc last_accepted_step)
qed

text \<open>
  C1: in a state the loop can reach, a notification whose text \<open>next\<close> the compiler
  rejects makes the loop call the compiler, log the warning and nothing more: the
  current table, \<open>last\<close>, the \<open>once\<close> and the channel \<open>first\<close> are as before, and the
  trace gains no table swap, no diff log line and no close of \<open>first\<close>. Only the
  remembered snapshot of the source that sent the notification has changed.
\<close>

theorem watchBackend_compile_failure:
  assumes s: "s = watchBackend c format ns"
    and fail: "NewTable c (next_of (receive s n)) = Inl err"
  shows "watchBackend_step c format s n =
           (receive s n)\<lparr>events := events s @
              [ENewTable (next_of (receive s n)), ELog (Warn_Error err)]\<rparr>
         \<and> table (watchBackend_step c format s n) = table s
         \<and> wb_last (watchBackend_step c format s n) = wb_last s
         \<and> once_done (watchBackend_step c format s n) = once_done s
         \<and> first_closed (watchBackend_step c format s n) = first_closed s"
proof -
  have "last_accepted c s" unfolding s by (rule last_accepted_watchBackend)
  with fail have "next_of (receive s n) \<noteq> wb_last s"
    by (auto simp: last_accepted_def next_of_not_Nil)
  with fail show ?thesis
    by (simp add: watchBackend_step_def Let_def receive_fields)
qed


lemma toy_fmt_a: "fmtDiff [Diff DiffDelete [], Diff DiffInsert ''a\<newline>''] = ''+ a''"
  by (simp add: fmtDiff_def TrimSpace_def isSpace_def Replace_newline_def)

lemma toy_run_a:
  "watchBackend toy_collab ''delta'' [Svc ''a''] =
     \<lparr>wb_last = ''a\<newline>'', svccfg = ''a'', mancfg = [], once_done = True,
      table = Some ''a\<newline>'', first_closed = True,
      events = [ENewTable ''a\<newline>'', ESetTable ''a\<newline>'',
                ELog (Info_ConfigUpdates ''+ a''), ECloseFirst]\<rparr>"
  by (simp add: watchBackend_def watchBackend_step_def toy_collab_def wb_init_def receive_def
      next_of_def once_Do_close_first_def logRoutes.simps toy_fmt_a Let_def)

theorem watchBackend_compile_failure_witness:
  "table (watchBackend_step toy_collab ''delta''
            (watchBackend toy_collab ''delta'' [Svc ''a'']) (Svc ''!'')) = Some ''a\<newline>''
   \<and> wb_last (watchBackend_step toy_collab ''delta''
            (watchBackend toy_collab ''delta'' [Svc ''a'']) (Svc ''!'')) = ''a\<newline>''
   \<and> events (watchBackend_step toy_collab ''delta''
            (watchBackend toy_collab ''delta'' [Svc ''a'']) (Svc ''!'')) =
       [ENewTable ''a\<newline>'', ESetTable ''a\<newline>'', ELog (Info_ConfigUpdates ''+ a''),
        ECloseFirst, ENewTable ''!\<newline>'', ELog (Warn_Error (ExternalError ''!\<newline>''))]"
proof -
  have h: "NewTable toy_collab
             (next_of (receive (watchBackend toy_collab ''delta'' [Svc ''a'']) (Svc ''!''))) =
           Inl (ExternalError ''!\<newline>'')"
    unfolding toy_run_a by (simp add: receive_def next_of_def toy_collab_def)
  show ?thesis
    using watchBackend_compile_failure [OF refl h]
    by (simp add: toy_run_a receive_def next_of_def)
qed

text \<open>
  C2: when the text \<open>next\<close> built from the two remembered snapshots equals \<open>last\<close>, the
  iteration ends after the comparison: the trace is unchanged (no call of the
  compiler, no table swap, no log line, no close of \<open>first\<close>), and so are the table,
  \<open>last\<close>, the \<open>once\<close> and the channel.
\<close>

theorem watchBackend_same_text:
  assumes "next_of (receive s n) = wb_last s"
  shows "watchBackend_step c format s n = receive s n
         \<and> events (watchBackend_step c format s n) = events s
         \<and> table (watchBackend_step c format s n) = table s
         \<and> wb_last (watchBackend_step c format s n) = wb_last s
         \<and> once_done (watchBackend_step c format s n) = once_done s
         \<and> first_closed (watchBackend_step c format s n) = first_closed s"
  using assms by (simp add: watchBackend_step_def Let_def receive_fields)


theorem watchBackend_same_text_witness:
  "watchBackend_step toy_collab ''delta'' (watchBackend toy_collab ''delta'' [Svc ''a''])
     (Svc ''a'') = watchBackend toy_collab ''delta'' [Svc ''a'']
   \<and> events (watchBackend_step toy_collab ''delta''
        (watchBackend toy_collab ''delta'' [Svc ''a'']) (Man [])) =
       [ENewTable ''a\<newline>'', ESetTable ''a\<newline>'', ELog (Info_ConfigUpdates ''+ a''),
        ECloseFirst]"
proof -
  have h1: "next_of (receive (watchBackend toy_collab ''delta'' [Svc ''a'']) (Svc ''a'')) =
            wb_last (watchBackend toy_collab ''delta'' [Svc ''a''])"
    by (simp add: toy_run_a receive_def next_of_def)
  have h2: "next_of (receive (watchBackend toy_collab ''delta'' [Svc ''a'']) (Man [])) =
            wb_last (watchBackend toy_collab ''delta'' [Svc ''a''])"
    by (simp add: toy_run_a receive_def next_of_def)
  show ?thesis
    using watchBackend_same_text [OF h1, of toy_collab "''delta''"]
      watchBackend_same_text [OF h2, of toy_collab "''delta''"]
    by (simp add: toy_run_a receive_def)
qed

text \<open>The invariant of the gate holds in every state the loop reaches.\<close>

lemma gate_inv_init: "gate_inv wb_init"
  by (simp add: gate_inv_def wb_init_def quiet_def)

lemma fired_append:
  assumes "fired_at_first_publish es" and "ECloseFirst \<notin> set rest"
  shows "fired_at_first_publish (es @ rest)"
proof -
  from assms(1) obtain pre t logs post where
    e: "es = pre @ ESetTable t # map ELog logs @ ECloseFirst # post"
    and p: "\<forall>t'. ESetTable t' \<notin> set pre" "ECloseFirst \<notin> set pre" "ECloseFirst \<notin> set post"
    unfolding fired_at_first_publish_def by blast
  have "es @ rest = pre @ ESetTable t # map ELog logs @ ECloseFirst # (post @ rest)"
    by (simp add: e)
  moreover have "ECloseFirst \<notin> set (post @ rest)"
    using p(3) assms(2) by simp
  ultimately show ?thesis
    unfolding fired_at_first_publish_def using p(1,2) by blast
qed

lemma fired_first:
  assumes "quiet es"
  shows "fired_at_first_publish
           ((es @ [ENewTable next, ESetTable t] @ map ELog logs) @ [ECloseFirst])"
proof -
  have "(es @ [ENewTable next, ESetTable t] @ map ELog logs) @ [ECloseFirst] =
        (es @ [ENewTable next]) @ ESetTable t # map ELog logs @ ECloseFirst # []"
    by simp
  moreover have "\<forall>t'. ESetTable t' \<notin> set (es @ [ENewTable next])"
    using assms by (simp add: quiet_def)
  moreover have "ECloseFirst \<notin> set (es @ [ENewTable next])"
    using assms by (simp add: quiet_def)
  moreover have "ECloseFirst \<notin> set ([] :: 'a wb_event list)"
    by simp
  ultimately show ?thesis
    unfolding fired_at_first_publish_def by blast
qed

lemma quiet_append_failure:
  "quiet es \<Longrightarrow> quiet (es @ [ENewTable next, ELog l])"
  by (simp add: quiet_def)

lemma gate_inv_step:
  assumes "gate_inv s"
  shows "gate_inv (watchBackend_step c format s n)"
proof (cases "next_of (receive s n) = wb_last s")
  case True
  with assms show ?thesis
    by (simp add: watchBackend_step_def Let_def receive_fields gate_inv_def)
next
  case diff: False
  let ?next = "next_of (receive s n)"
  show ?thesis
  proof (cases "NewTable c ?next")
    case (Inl err)
    have st: "watchBackend_step c format s n =
      (receive s n)\<lparr>events := events s @ [ENewTable ?next, ELog (Warn_Error err)]\<rparr>"
      using diff Inl by (simp add: watchBackend_step_def Let_def receive_fields)
    show ?thesis
    proof (cases "once_done s")
      case True
      with assms have "fired_at_first_publish (events s)" and f: "first_closed s"
        by (simp_all add: gate_inv_def)
      then have "fired_at_first_publish (events s @ [ENewTable ?next, ELog (Warn_Error err)])"
        by (intro fired_append) simp_all
      with True f show ?thesis
        unfolding gate_inv_def st by (simp add: receive_fields)
    next
      case False
      with assms have "quiet (events s)" and f: "\<not> first_closed s"
        by (simp_all add: gate_inv_def)
      then have "quiet (events s @ [ENewTable ?next, ELog (Warn_Error err)])"
        by (intro quiet_append_failure)
      with False f show ?thesis
        unfolding gate_inv_def st by (simp add: receive_fields)
    qed
  next
    case (Inr t)
    let ?logs = "logRoutes c t (wb_last s) ?next format"
    let ?es = "events s @ [ENewTable ?next, ESetTable t] @ map ELog ?logs"
    let ?s1 = "(receive s n)\<lparr>table := Some t, events := ?es, wb_last := ?next\<rparr>"
    have st: "watchBackend_step c format s n = once_Do_close_first ?s1"
      using diff Inr by (simp add: watchBackend_step_def Let_def receive_fields)
    show ?thesis
    proof (cases "once_done s")
      case True
      with assms have "fired_at_first_publish (events s)" and f: "first_closed s"
        by (simp_all add: gate_inv_def)
      then have "fired_at_first_publish (events s @ ([ENewTable ?next, ESetTable t] @ map ELog ?logs))"
        by (intro fired_append) auto
      moreover have o: "once_Do_close_first ?s1 = ?s1"
        using True by (simp add: once_Do_close_first_def receive_fields)
      ultimately show ?thesis
        unfolding st o gate_inv_def using True f by (simp add: receive_fields)
    next
      case False
      with assms have q: "quiet (events s)"
        by (simp add: gate_inv_def)
      have o: "once_Do_close_first ?s1 =
        ?s1\<lparr>once_done := True, first_closed := True, events := ?es @ [ECloseFirst]\<rparr>"
        using False by (simp add: once_Do_close_first_def receive_fields)
      from fired_first [OF q] have "fired_at_first_publish (?es @ [ECloseFirst])" .
      then show ?thesis
        unfolding st o gate_inv_def by simp
    qed
  qed
qed

lemma gate_inv_watchBackend: "gate_inv (watchBackend c format ns)"
proof (induction ns rule: rev_induct)
  case Nil
  show ?case by (simp add: watchBackend_Nil gate_inv_init)
next
  case (snoc n ns)
  then show ?case by (simp add: watchBackend_snoc gate_inv_step)
qed

lemma count_list_append: "count_list (xs @ ys) x = count_list xs x + count_list ys x"
  by (induction xs) auto

lemma count_list_0: "x \<notin> set xs \<Longrightarrow> count_list xs x = 0"
  by (induction xs) auto

lemma fired_count:
  assumes "fired_at_first_publish es"
  shows "count_list es ECloseFirst = 1"
proof -
  from assms obtain pre t logs post where
    e: "es = pre @ ESetTable t # map ELog logs @ ECloseFirst # post"
    and p: "ECloseFirst \<notin> set pre" "ECloseFirst \<notin> set post"
    unfolding fired_at_first_publish_def by blast
  have "count_list (map ELog logs) (ECloseFirst :: 'a wb_event) = 0"
    by (rule count_list_0) auto
  with p show ?thesis
    by (simp add: e count_list_append count_list_0)
qed

lemma fired_published: "fired_at_first_publish es \<Longrightarrow> \<exists>t. ESetTable t \<in> set es"
  unfolding fired_at_first_publish_def by auto

lemma gate_inv_published:
  assumes "gate_inv s"
  shows "once_done s = (\<exists>t. ESetTable t \<in> set (events s))"
proof (cases "once_done s")
  case True
  with assms have "fired_at_first_publish (events s)" by (simp add: gate_inv_def)
  from fired_published [OF this] True show ?thesis by simp
next
  case False
  with assms have "quiet (events s)" by (simp add: gate_inv_def)
  with False show ?thesis by (simp add: quiet_def)
qed

text \<open>
  C3: after any sequence of notifications the channel \<open>first\<close> has been closed exactly
  once if a table has been published and not at all otherwise. The close follows the
  first published table, after the log lines of that publication and before anything
  else: no table is published before that one, and \<open>first\<close> is closed neither before
  nor again later, however many tables are published after it.
\<close>

theorem readiness_gate_fires_once:
  "count_list (events (watchBackend c format ns)) ECloseFirst =
     (if \<exists>t. ESetTable t \<in> set (events (watchBackend c format ns)) then 1 else 0)
   \<and> first_closed (watchBackend c format ns) =
       (\<exists>t. ESetTable t \<in> set (events (watchBackend c format ns)))
   \<and> (if \<exists>t. ESetTable t \<in> set (events (watchBackend c format ns)) then
        (\<exists>pre t logs post.
           events (watchBackend c format ns) =
             pre @ ESetTable t # map ELog logs @ ECloseFirst # post \<and>
           (\<forall>t'. ESetTable t' \<notin> set pre) \<and> ECloseFirst \<notin> set pre \<and> ECloseFirst \<notin> set post)
      else ECloseFirst \<notin> set (events (watchBackend c format ns)))"
proof -
  let ?s = "watchBackend c format ns"
  have i: "gate_inv ?s" by (rule gate_inv_watchBackend)
  note pub = gate_inv_published [OF i]
  show ?thesis
  proof (cases "once_done ?s")
    case True
    with i have f: "fired_at_first_publish (events ?s)" and c: "first_closed ?s"
      by (simp_all add: gate_inv_def)
    from True pub have p: "\<exists>t. ESetTable t \<in> set (events ?s)" by simp
    from f have "\<exists>pre t logs post.
           events ?s = pre @ ESetTable t # map ELog logs @ ECloseFirst # post \<and>
           (\<forall>t'. ESetTable t' \<notin> set pre) \<and> ECloseFirst \<notin> set pre \<and> ECloseFirst \<notin> set post"
      unfolding fired_at_first_publish_def .
    with fired_count [OF f] c p show ?thesis by simp
  next
    case False
    with i have q: "quiet (events ?s)" and c: "\<not> first_closed ?s"
      by (simp_all add: gate_inv_def)
    from False pub have p: "\<not> (\<exists>t. ESetTable t \<in> set (events ?s))" by simp
    from q have n: "ECloseFirst \<notin> set (events ?s)" by (simp add: quiet_def)
    from count_list_0 [OF n] c p n show ?thesis by simp
  qed
qed

lemma toy_fmt_ab:
  "fmtDiff [Diff DiffDelete ''a\<newline>'', Diff DiffInsert ''b\<newline>''] = ''- a+ b''"
  by (simp add: fmtDiff_def TrimSpace_def isSpace_def Replace_newline_def)

lemma toy_run_ab:
  "events (watchBackend toy_collab ''delta'' [Svc ''!'', Svc ''a'', Svc ''b'']) =
     [ENewTable ''!\<newline>'', ELog (Warn_Error (ExternalError ''!\<newline>'')),
      ENewTable ''a\<newline>'', ESetTable ''a\<newline>'', ELog (Info_ConfigUpdates ''+ a''),
      ECloseFirst,
      ENewTable ''b\<newline>'', ESetTable ''b\<newline>'', ELog (Info_ConfigUpdates ''- a+ b'')]"
  by (simp add: watchBackend_def watchBackend_step_def toy_collab_def wb_init_def receive_def
      next_of_def once_Do_close_first_def logRoutes.simps toy_fmt_a toy_fmt_ab Let_def)

theorem readiness_gate_fires_once_witness:
  "count_list (events (watchBackend toy_collab ''delta'' [Svc ''!'', Svc ''a'', Svc ''b'']))
     ECloseFirst = 1
   \<and> first_closed (watchBackend toy_collab ''delta'' [Svc ''!'', Svc ''a'', Svc ''b''])
   \<and> count_list (events (watchBackend toy_collab ''delta'' [Svc ''!''])) ECloseFirst = 0"
proof -
  have 1: "\<exists>t. ESetTable t \<in>
             set (events (watchBackend toy_collab ''delta'' [Svc ''!'', Svc ''a'', Svc ''b'']))"
    unfolding toy_run_ab by auto
  have 2: "\<not> (\<exists>t. ESetTable t \<in> set (events (watchBackend toy_collab ''delta'' [Svc ''!''])))"
    by (simp add: watchBackend_def watchBackend_step_def toy_collab_def wb_init_def receive_def
        next_of_def Let_def)
  show ?thesis
    using readiness_gate_fires_once [of toy_collab "''delta''" "[Svc ''!'', Svc ''a'', Svc ''b'']"]
      readiness_gate_fires_once [of toy_collab "''delta''" "[Svc ''!'']"] 1 2
    by simp
qed

section \<open>Properties of the registration loop\<close>

text \<open>One iteration of the loop whose attempt fails.\<close>

lemma initBackend_loop_failed:
  assumes k: "known_backend env" and f: "attempt_error (attempt env (attempts s)) = Some err"
  shows "initBackend_loop env deadline s =
     (if deadline < now s + elapse env then
        Some (Fatal TimeoutRegisteringBackend,
              \<lparr>now = now s + elapse env, attempts = attempts s + 1,
               ib_events = ib_events s @ [EAttempt, EWarn err, EDeadlineCheck]\<rparr>)
      else if 0 < sint (shuttingDown_at env (now s + elapse env + max 0 (Retry env))) then
        Some (Exit 1,
              \<lparr>now = now s + elapse env + max 0 (Retry env), attempts = attempts s + 1,
               ib_events = ib_events s @
                 [EAttempt, EWarn err, EDeadlineCheck, ESleep (Retry env), EShutdownCheck]\<rparr>)
      else
        initBackend_loop env deadline
          \<lparr>now = now s + elapse env + max 0 (Retry env), attempts = attempts s + 1,
           ib_events = ib_events s @
             [EAttempt, EWarn err, EDeadlineCheck, ESleep (Retry env), EShutdownCheck]\<rparr>)"
proof (cases s)
  case (fields t k0 es)
  show ?thesis
    using k f unfolding fields
    by (subst initBackend_loop.simps) (auto simp: known_backend_def Let_def)
qed

lemma always_fails_run:
  fixes env :: ib_env and m j :: nat and t0 :: int
  defines "R \<equiv> Retry env" and "e \<equiv> elapse env"
  defines "N \<equiv> m + (if e = 0 then 2 else 1)"
  assumes known: "known_backend env"
    and fails: "\<And>k. attempt env k \<noteq> Registered"
    and noshut: "\<And>t. \<not> 0 < sint (shuttingDown_at env t)"
    and R: "0 < R" and e: "0 \<le> e" and small: "int m * e \<le> R"
    and j: "j < N" and st: "now s = t0 + int j * (e + R)" "attempts s = j"
  shows "\<exists>s'. initBackend_loop env (t0 + int m * R) s = Some (Fatal TimeoutRegisteringBackend, s')
           \<and> attempts s' = N \<and> now s' = t0 + int (N - 1) * (e + R) + e"
  using j st
proof (induction "N - 1 - j" arbitrary: j s)
  case 0
  then have jN: "j = N - 1" by simp
  obtain err where err: "attempt_error (attempt env (attempts s)) = Some err"
    using fails [of "attempts s"] by (cases "attempt env (attempts s)") auto
  have late: "t0 + int m * R < now s + elapse env"
  proof (cases "e = 0")
    case True
    then have "j = m + 1" using jN by (simp add: N_def)
    then show ?thesis using "0.prems"(2) True R by (simp add: e_def [symmetric] algebra_simps)
  next
    case False
    then have jm: "j = m" using jN by (simp add: N_def)
    have pos: "0 < e" using False e by simp
    have a: "0 \<le> int m * e" using e by simp
    have b: "int j * (e + R) = int m * R + int m * e" using jm by (simp add: algebra_simps)
    have "now s + elapse env = t0 + int m * R + int m * e + e"
      using "0.prems"(2) b by (simp add: e_def)
    with a pos show ?thesis by linarith
  qed
  have "0 < N" using "0.prems"(1) by simp
  with late show ?case
    by (simp add: initBackend_loop_failed [OF known err] "0.prems" jN e_def [symmetric])
next
  case (Suc d)
  then have jN: "j + 1 < N" by simp
  obtain err where err: "attempt_error (attempt env (attempts s)) = Some err"
    using fails [of "attempts s"] by (cases "attempt env (attempts s)") auto
  have early: "\<not> t0 + int m * R < now s + elapse env"
  proof (cases "e = 0")
    case True
    then have "j \<le> m" using jN by (simp add: N_def)
    then have "int j * R \<le> int m * R" using R by (simp add: mult_right_mono)
    then show ?thesis using Suc.prems(2) True by (simp add: e_def [symmetric] algebra_simps)
  next
    case False
    then have jm: "j + 1 \<le> m" using jN by (simp add: N_def)
    then have "int (j + 1) * e \<le> int m * e" using e by (intro mult_right_mono) simp_all
    moreover have "int (j + 1) * R \<le> int m * R" using jm R by (intro mult_right_mono) simp_all
    ultimately have "int j * e + e + int j * R \<le> int m * R"
      using small by (simp add: algebra_simps)
    then show ?thesis using Suc.prems(2) by (simp add: e_def [symmetric] algebra_simps)
  qed
  let ?s1 = "\<lparr>now = now s + elapse env + max 0 (Retry env), attempts = attempts s + 1,
           ib_events = ib_events s @
             [EAttempt, EWarn err, EDeadlineCheck, ESleep (Retry env), EShutdownCheck]\<rparr>"
  have step: "initBackend_loop env (t0 + int m * R) s = initBackend_loop env (t0 + int m * R) ?s1"
    using early noshut by (simp add: initBackend_loop_failed [OF known err])
  have "d = N - 1 - (j + 1)" using Suc.hyps(2) by simp
  moreover have "j + 1 < N" using jN .
  moreover have "now ?s1 = t0 + int (j + 1) * (e + R)"
    using Suc.prems(2) R by (simp add: e_def R_def algebra_simps)
  moreover have "attempts ?s1 = j + 1" using Suc.prems(3) by simp
  ultimately show ?case unfolding step by (rule Suc.hyps(1))
qed

text \<open>
  C5, as the code has it: after a failed attempt against a known backend kind the
  loop logs the warning and checks the deadline at once, before any sleep; if the
  deadline has passed the process ends there, fatally. Otherwise the loop sleeps the
  retry interval and then reads the flag \<open>shuttingDown\<close>: it exits with code 1 if the
  flag is set, and makes the next attempt if not.
\<close>

theorem initBackend_failed_attempt_order:
  assumes "known_backend env" and "attempt_error (attempt env (attempts s)) = Some err"
  shows "initBackend_loop env deadline s =
     (if deadline < now s + elapse env then
        Some (Fatal TimeoutRegisteringBackend,
              \<lparr>now = now s + elapse env, attempts = attempts s + 1,
               ib_events = ib_events s @ [EAttempt, EWarn err, EDeadlineCheck]\<rparr>)
      else if 0 < sint (shuttingDown_at env (now s + elapse env + max 0 (Retry env))) then
        Some (Exit 1,
              \<lparr>now = now s + elapse env + max 0 (Retry env), attempts = attempts s + 1,
               ib_events = ib_events s @
                 [EAttempt, EWarn err, EDeadlineCheck, ESleep (Retry env), EShutdownCheck]\<rparr>)
      else
        initBackend_loop env deadline
          \<lparr>now = now s + elapse env + max 0 (Retry env), attempts = attempts s + 1,
           ib_events = ib_events s @
             [EAttempt, EWarn err, EDeadlineCheck, ESleep (Retry env), EShutdownCheck]\<rparr>)"
  using assms by (rule initBackend_loop_failed)

theorem initBackend_failed_attempt_order_witness:
  "initBackend_loop (failing_env 5 10 0) 5 \<lparr>now = 0, attempts = 0, ib_events = []\<rparr> =
     initBackend_loop (failing_env 5 10 0) 5
       \<lparr>now = 10, attempts = 1,
        ib_events = [EAttempt, EWarn (ExternalError ''unavailable''), EDeadlineCheck,
                     ESleep 10, EShutdownCheck]\<rparr>
   \<and> initBackend_loop (failing_env 5 10 0) 5 \<lparr>now = 10, attempts = 1, ib_events = []\<rparr> =
     Some (Fatal TimeoutRegisteringBackend,
           \<lparr>now = 10, attempts = 2,
            ib_events = [EAttempt, EWarn (ExternalError ''unavailable''), EDeadlineCheck]\<rparr>)"
proof -
  have k: "known_backend (failing_env 5 10 0)"
    by (simp add: known_backend_def failing_env_def)
  have f: "attempt_error (attempt (failing_env 5 10 0) (attempts s)) =
           Some (ExternalError ''unavailable'')" for s :: ib_state
    by (simp add: failing_env_def)
  show ?thesis
    using initBackend_failed_attempt_order [OF k f, of 5 "\<lparr>now = 0, attempts = 0, ib_events = []\<rparr>"]
      initBackend_failed_attempt_order [OF k f, of 5 "\<lparr>now = 10, attempts = 1, ib_events = []\<rparr>"]
    by (simp add: failing_env_def)
qed

text \<open>
  The claim C5 as stated fails: with a timeout of 5 and a retry interval of 10 the
  first failed attempt is followed by the deadline check at time 0 and only then by the
  sleep, and the second failed attempt, at time 10, is followed by the deadline check
  and the fatal end with no sleep at all. A loop that slept before it checked the
  deadline would have ended after the first attempt.
\<close>

theorem initBackend_failed_attempt_order_counterexample:
  "initBackend (failing_env 5 10 0) 0 =
     Some (Fatal TimeoutRegisteringBackend,
       \<lparr>now = 10, attempts = 2,
        ib_events =
          [EAttempt, EWarn (ExternalError ''unavailable''), EDeadlineCheck, ESleep 10,
           EShutdownCheck,
           EAttempt, EWarn (ExternalError ''unavailable''), EDeadlineCheck]\<rparr>)"
  unfolding initBackend_def
  by (subst initBackend_loop.simps, simp add: failing_env_def Let_def)+

text \<open>
  C6: let the retry interval \<open>R\<close> be positive, the timeout \<open>D\<close> be \<open>m\<close> times \<open>R\<close>,
  every attempt fail and no shutdown be requested. The time \<open>e\<close> of an attempt and its
  log line is left out of the count but not out of the clock: it is positive and
  small (\<open>m * e\<close> at most \<open>R\<close>), so that the clock read for a deadline check is later
  than the clock read before the attempt. Then the loop ends the process fatally after
  exactly \<open>m + 1 = D / R + 1\<close> attempts, at the first deadline check made after \<open>D\<close>
  has elapsed: that check reads a time after the deadline, and the check before it,
  one attempt and one sleep earlier, did not.
\<close>

theorem initBackend_always_failing_attempts:
  fixes env :: ib_env and m :: nat and t0 :: int
  assumes known: "known_backend env"
    and fails: "\<And>k. attempt env k \<noteq> Registered"
    and noshut: "\<And>t. \<not> 0 < sint (shuttingDown_at env t)"
    and R: "0 < Retry env" and e: "0 < elapse env" and small: "int m * elapse env \<le> Retry env"
    and D: "Timeout env = int m * Retry env"
  shows "\<exists>s'. initBackend env t0 = Some (Fatal TimeoutRegisteringBackend, s')
           \<and> attempts s' = m + 1
           \<and> attempts s' = nat (Timeout env div Retry env) + 1
           \<and> now s' = t0 + int m * (elapse env + Retry env) + elapse env
           \<and> t0 + Timeout env < now s'
           \<and> now s' - (elapse env + Retry env) \<le> t0 + Timeout env"
proof -
  from e have e0: "0 \<le> elapse env" and ne: "elapse env \<noteq> 0" by simp_all
  have "\<exists>s'. initBackend_loop env (t0 + int m * Retry env) \<lparr>now = t0, attempts = 0, ib_events = []\<rparr>
          = Some (Fatal TimeoutRegisteringBackend, s')
           \<and> attempts s' = m + (if elapse env = 0 then 2 else 1)
           \<and> now s' = t0 + int (m + (if elapse env = 0 then 2 else 1) - 1) * (elapse env + Retry env) + elapse env"
    by (rule always_fails_run [OF known fails noshut R e0 small]) simp_all
  then obtain s' where
    run: "initBackend env t0 = Some (Fatal TimeoutRegisteringBackend, s')"
    and att: "attempts s' = m + 1"
    and tm: "now s' = t0 + int m * (elapse env + Retry env) + elapse env"
    using ne by (auto simp: initBackend_def D)
  have dv: "Timeout env div Retry env = int m"
    using R by (simp add: D)
  have me: "0 \<le> int m * elapse env"
    using e0 by simp
  have ex: "int m * (elapse env + Retry env) = int m * elapse env + int m * Retry env"
    by (simp add: algebra_simps)
  have after: "t0 + Timeout env < now s'"
    unfolding tm D ex using me e by linarith
  have before: "now s' - (elapse env + Retry env) \<le> t0 + Timeout env"
    unfolding tm D ex using small by linarith
  from run att tm after before dv show ?thesis by simp
qed

theorem initBackend_always_failing_attempts_witness:
  "\<exists>s'. initBackend (failing_env 20 10 1) 0 = Some (Fatal TimeoutRegisteringBackend, s')
        \<and> attempts s' = 3 \<and> now s' = 23"
proof -
  have k: "known_backend (failing_env 20 10 1)"
    by (simp add: known_backend_def failing_env_def)
  have f: "attempt (failing_env 20 10 1) k \<noteq> Registered" for k
    by (simp add: failing_env_def)
  have n: "\<not> 0 < sint (shuttingDown_at (failing_env 20 10 1) t)" for t
    by (simp add: failing_env_def)
  show ?thesis
    using initBackend_always_failing_attempts [OF k f n, of 2 0]
    by (auto simp: failing_env_def)
qed

text \<open>The run of the witness, step by step: three attempts, the last check at time 23.\<close>

lemma initBackend_always_failing_run:
  "initBackend (failing_env 20 10 1) 0 =
     Some (Fatal TimeoutRegisteringBackend,
       \<lparr>now = 23, attempts = 3,
        ib_events =
          [EAttempt, EWarn (ExternalError ''unavailable''), EDeadlineCheck, ESleep 10,
           EShutdownCheck,
           EAttempt, EWarn (ExternalError ''unavailable''), EDeadlineCheck, ESleep 10,
           EShutdownCheck,
           EAttempt, EWarn (ExternalError ''unavailable''), EDeadlineCheck]\<rparr>)"
  unfolding initBackend_def
  by (subst initBackend_loop.simps, simp add: failing_env_def Let_def)+

end
